theory Spec2Isabelle
  imports Complex_Main
begin

section \<open>Tee-time reservation: availability, slot selection and the polling loop\<close>

text \<open>
  A shallow embedding of \<^verbatim>\<open>tee_time_reservations.py\<close>: \<^verbatim>\<open>to_minutes\<close>,
  \<^verbatim>\<open>get_availability\<close>, \<^verbatim>\<open>pick_slot\<close> and \<^verbatim>\<open>poll_for_slot\<close>.

  Exceptions are values of type \<open>error\<close>; a function that can raise returns
  \<open>error + 'a\<close> with \<open>Inl\<close> for the exception. \<open>RequestException\<close> stands for the
  whole class \<^verbatim>\<open>requests.RequestException\<close>, the only class the polling loop catches.
\<close>

datatype error = ValueError | KeyError | RequestException

subsection \<open>Python's \<^verbatim>\<open>str.split\<close> and \<^verbatim>\<open>int\<close> on strings\<close>

text \<open>
  \<^verbatim>\<open>s.split(":")\<close> cuts at every separator and always returns at least one piece
  (\<^verbatim>\<open>"".split(":") == [""]\<close>).
\<close>

fun split_on :: "char \<Rightarrow> string \<Rightarrow> string list" where
  "split_on sep [] = [[]]"
| "split_on sep (c # cs) =
     (if c = sep then [] # split_on sep cs
      else (case split_on sep cs of
              [] \<Rightarrow> [[c]]
            | p # ps \<Rightarrow> (c # p) # ps))"

text \<open>
  \<^verbatim>\<open>int(s)\<close> for a string, base 10, as the language reference gives it: surrounding
  whitespace is dropped, one optional sign, then decimal digits in which single underscores
  may stand between two digits. Anything else raises \<^verbatim>\<open>ValueError\<close> (\<open>None\<close> here).
  A character here is a code point below 256. Among these the whitespace that \<^verbatim>\<open>int\<close>
  drops is the space, the control characters 9 to 13, and the code points 133 (next line) and
  160 (no-break space); the only decimal digits are \<^verbatim>\<open>0\<close> to \<^verbatim>\<open>9\<close>. Code points from
  256 on are outside the model, and so is the interpreter's configurable limit on the number
  of digits.
\<close>

definition is_space :: "char \<Rightarrow> bool" where
  "is_space c =
     (c = CHR '' '' \<or> (9 \<le> (of_char c :: nat) \<and> (of_char c :: nat) \<le> 13) \<or>
      (of_char c :: nat) = 133 \<or> (of_char c :: nat) = 160)"

definition is_digit :: "char \<Rightarrow> bool" where
  "is_digit c = (48 \<le> (of_char c :: nat) \<and> (of_char c :: nat) \<le> 57)"

definition digit_value :: "char \<Rightarrow> int" where
  "digit_value c = int (of_char c) - 48"

fun digits_from :: "int \<Rightarrow> string \<Rightarrow> int option" where
  "digits_from acc [] = Some acc"
| "digits_from acc [c] =
     (if is_digit c then Some (10 * acc + digit_value c) else None)"
| "digits_from acc (c # d # cs) =
     (if is_digit c then digits_from (10 * acc + digit_value c) (d # cs)
      else if c = CHR ''_'' \<and> is_digit d then digits_from (10 * acc + digit_value d) cs
      else None)"

definition unsigned_int :: "string \<Rightarrow> int option" where
  "unsigned_int s =
     (case s of
        [] \<Rightarrow> None
      | c # cs \<Rightarrow> if is_digit c then digits_from (digit_value c) cs else None)"

definition strip :: "string \<Rightarrow> string" where
  "strip s = rev (dropWhile is_space (rev (dropWhile is_space s)))"

definition py_int :: "string \<Rightarrow> int option" where
  "py_int s =
     (case strip s of
        [] \<Rightarrow> None
      | c # cs \<Rightarrow>
          if c = CHR ''-'' then map_option uminus (unsigned_int cs)
          else if c = CHR ''+'' then unsigned_int cs
          else unsigned_int (c # cs))"

subsection \<open>\<^verbatim>\<open>to_minutes\<close>\<close>

text \<open>
  \<^verbatim>\<open>h, m = map(int, hhmm.split(":")); return 60 * h + m\<close>.
  The unpacking needs exactly two pieces and each must convert; every failure is a
  \<^verbatim>\<open>ValueError\<close>.
\<close>

definition to_minutes :: "string \<Rightarrow> error + int" where
  "to_minutes hhmm =
     (case split_on CHR '':'' hhmm of
        [a, b] \<Rightarrow>
          (case py_int a of
             None \<Rightarrow> Inl ValueError
           | Some h \<Rightarrow>
               (case py_int b of
                  None \<Rightarrow> Inl ValueError
                | Some m \<Rightarrow> Inr (60 * h + m)))
      | _ \<Rightarrow> Inl ValueError)"

subsection \<open>Slots\<close>

text \<open>
  One element of the JSON list the service answers with, a dictionary expected to hold
  \<^verbatim>\<open>"Fecha"\<close>, \<^verbatim>\<open>"Hora"\<close>, \<^verbatim>\<open>"Recorrido"\<close> and \<^verbatim>\<open>"NumeroJugadoresMaximo"\<close>.
  The two keys the code under study reads may be absent (\<open>None\<close>):
  \<^verbatim>\<open>a["Hora"]\<close> then raises \<^verbatim>\<open>KeyError\<close>, and
  \<^verbatim>\<open>x.get("NumeroJugadoresMaximo", 4)\<close> falls back to 4. Values have the types the
  source expects (strings and an integer).
\<close>

record slot =
  Fecha :: string
  Hora :: "string option"
  Recorrido :: string
  NumeroJugadoresMaximo :: "int option"

definition max_players :: "slot \<Rightarrow> int" where
  "max_players x = (case NumeroJugadoresMaximo x of None \<Rightarrow> 4 | Some n \<Rightarrow> n)"

definition hora_minutes :: "slot \<Rightarrow> error + int" where
  "hora_minutes a = (case Hora a of None \<Rightarrow> Inl KeyError | Some s \<Rightarrow> to_minutes s)"

text \<open>Evaluating a function that can raise on each element in turn: the first failure wins.\<close>

fun traverse :: "('a \<Rightarrow> error + 'b) \<Rightarrow> 'a list \<Rightarrow> error + 'b list" where
  "traverse f [] = Inr []"
| "traverse f (x # xs) =
     (case f x of
        Inl e \<Rightarrow> Inl e
      | Inr y \<Rightarrow> (case traverse f xs of Inl e \<Rightarrow> Inl e | Inr ys \<Rightarrow> Inr (y # ys)))"

subsection \<open>\<^verbatim>\<open>get_availability\<close>\<close>

datatype jval = JStr string | JInt int

type_synonym payload = "string \<rightharpoonup> jval"

text \<open>Python truthiness of an \<^verbatim>\<open>Optional[str]\<close>: neither \<^verbatim>\<open>None\<close> nor empty.\<close>

definition truthy :: "string option \<Rightarrow> bool" where
  "truthy s = (case s of None \<Rightarrow> False | Some t \<Rightarrow> t \<noteq> [])"

text \<open>The request body built in the first lines of \<^verbatim>\<open>get_availability\<close>.\<close>

definition availability_payload ::
  "string \<Rightarrow> string \<Rightarrow> string \<Rightarrow> int \<Rightarrow> string option \<Rightarrow> payload" where
  "availability_payload token for_date recorrido players filtro_hora =
     (let payload = [''Token'' \<mapsto> JStr token,
                     ''FiltroFecha'' \<mapsto> JStr for_date,
                     ''FiltroRecorrido'' \<mapsto> JStr recorrido,
                     ''FiltroJugadores'' \<mapsto> JInt players,
                     ''FiltroHora'' \<mapsto> JStr ''08:00'']
      in if truthy filtro_hora then payload(''FiltroHora'' \<mapsto> JStr (the filtro_hora))
         else payload)"

text \<open>
  What \<^verbatim>\<open>post\<close>, \<^verbatim>\<open>raise_for_status\<close> and \<^verbatim>\<open>r.json()\<close> give for a request: a
  \<^verbatim>\<open>requests.RequestException\<close>, or the decoded list. The remote service is a function
  from the body sent to that result; \<^verbatim>\<open>base_url\<close> and \<^verbatim>\<open>timeout\<close> only reach the
  HTTP layer and are part of it.
\<close>

datatype http_result = RequestFailed | Json "slot list"

type_synonym service = "payload \<Rightarrow> http_result"

text \<open>
  \<^verbatim>\<open>list.sort(key=...)\<close> computes the key of every element first, in list order (so the
  first bad \<^verbatim>\<open>"Hora"\<close> raises), and then sorts the decorated elements stably by key.
\<close>

definition get_availability ::
  "service \<Rightarrow> string \<Rightarrow> string \<Rightarrow> string \<Rightarrow> int \<Rightarrow> string option \<Rightarrow> error + slot list" where
  "get_availability post token for_date recorrido players filtro_hora =
     (case post (availability_payload token for_date recorrido players filtro_hora) of
        RequestFailed \<Rightarrow> Inl RequestException
      | Json data \<Rightarrow>
          (let avails = filter (\<lambda>x. max_players x \<ge> players) data
           in case traverse hora_minutes avails of
                Inl e \<Rightarrow> Inl e
              | Inr ks \<Rightarrow> Inr (map snd (sort_key fst (zip ks avails)))))"

subsection \<open>\<^verbatim>\<open>pick_slot\<close>\<close>

text \<open>
  The comprehension \<^verbatim>\<open>[a for a in avails if to_minutes(a["Hora"]) >= t0]\<close>: it raises at
  the first element whose time cannot be read.
\<close>

fun candidates_from :: "int \<Rightarrow> slot list \<Rightarrow> error + slot list" where
  "candidates_from t0 [] = Inr []"
| "candidates_from t0 (a # as) =
     (case hora_minutes a of
        Inl e \<Rightarrow> Inl e
      | Inr k \<Rightarrow>
          (case candidates_from t0 as of
             Inl e \<Rightarrow> Inl e
           | Inr cs \<Rightarrow> Inr (if k \<ge> t0 then a # cs else cs)))"

definition pick_slot :: "slot list \<Rightarrow> string \<Rightarrow> string option \<Rightarrow> error + slot option" where
  "pick_slot avails mode target_time =
     (case avails of
        [] \<Rightarrow> Inr None
      | first # _ \<Rightarrow>
          if mode = ''earliest'' \<or> \<not> truthy target_time then Inr (Some first)
          else if mode = ''closest'' then
            (case to_minutes (the target_time) of
               Inl e \<Rightarrow> Inl e
             | Inr t0 \<Rightarrow>
                 (case candidates_from t0 avails of
                    Inl e \<Rightarrow> Inl e
                  | Inr candidates \<Rightarrow>
                      (case candidates of [] \<Rightarrow> Inr None | c # _ \<Rightarrow> Inr (Some c))))
          else Inl ValueError)"

subsection \<open>\<^verbatim>\<open>poll_for_slot\<close>\<close>

text \<open>The arguments of \<^verbatim>\<open>poll_for_slot\<close> that the loop reads.\<close>

record poll_args =
  token :: string
  the_date :: string
  recorrido :: string
  players :: int
  filtro_hora :: "string option"
  mode :: string
  target_time :: "string option"
  poll_every :: real
  max_wait_seconds :: real

text \<open>
  Time is a real number of seconds. The loop's three local variables and the clock make up
  the state; \<open>trace\<close> is a ghost log of the instants at which a query and each kind of
  sleep begin, kept to state the timing claims. A query takes the time the environment
  says, \<^verbatim>\<open>time.sleep(d)\<close> takes \<open>d\<close>, and every other statement takes none.
  The backoff values 0, 2, 4 and 8 are exact as floating-point numbers, and the deadline is
  only ever compared with clock readings.
\<close>

datatype event = Query real | BackoffSleep real real | PollSleep real real

record loop_state =
  clock :: real
  deadline :: real
  backoff :: real
  last_avails :: "slot list"
  trace :: "event list"

text \<open>How a call ends: a returned pair, or an exception that leaves the function.\<close>

datatype outcome = Returned "slot option" "slot list" | Raised error

text \<open>
  The tail of the loop body: the deadline test and the poll-interval sleep.
  \<^verbatim>\<open>time.sleep\<close> raises \<^verbatim>\<open>ValueError\<close> for a negative length. \<open>None\<close> as the first
  component means that the loop goes round again.
\<close>

definition after_attempt :: "poll_args \<Rightarrow> loop_state \<Rightarrow> outcome option \<times> loop_state" where
  "after_attempt P s =
     (if clock s \<ge> deadline s then (Some (Returned None (last_avails s)), s)
      else if poll_every P < 0 then (Some (Raised ValueError), s)
      else (None, s\<lparr>trace := trace s @ [PollSleep (clock s) (poll_every P)],
                    clock := clock s + poll_every P\<rparr>))"

text \<open>The call of \<^verbatim>\<open>get_availability\<close> in the loop body, on the environment's answer.\<close>

definition query_result :: "poll_args \<Rightarrow> real \<times> service \<Rightarrow> error + slot list" where
  "query_result P q =
     get_availability (snd q) (token P) (the_date P) (recorrido P) (players P) (filtro_hora P)"

text \<open>\<^verbatim>\<open>min(2.0 if backoff == 0.0 else backoff * 2.0, 8.0)\<close>\<close>

definition next_backoff :: "real \<Rightarrow> real" where
  "next_backoff b = min (if b = 0 then 2 else b * 2) 8"

text \<open>
  One pass through the body of \<^verbatim>\<open>while True\<close>. The environment gives, for this query,
  the time it takes and the service's answer.
\<close>

definition iteration ::
  "poll_args \<Rightarrow> real \<times> service \<Rightarrow> loop_state \<Rightarrow> outcome option \<times> loop_state" where
  "iteration P q s =
     (let s1 = s\<lparr>trace := trace s @ [Query (clock s)], clock := clock s + fst q\<rparr>
      in case query_result P q of
           Inr avails \<Rightarrow>
             (let s2 = s1\<lparr>last_avails := avails\<rparr>
              in case pick_slot avails (mode P) (target_time P) of
                   Inl e \<Rightarrow> (Some (Raised e), s2)
                 | Inr (Some pick) \<Rightarrow> (Some (Returned (Some pick) avails), s2)
                 | Inr None \<Rightarrow> after_attempt P s2)
         | Inl e \<Rightarrow>
             if e = RequestException then
               (let b = next_backoff (backoff s1)
                in after_attempt P
                     (s1\<lparr>backoff := b,
                         trace := trace s1 @ [BackoffSleep (clock s1) b],
                         clock := clock s1 + b\<rparr>))
             else (Some (Raised e), s1))"

text \<open>
  The loop, driven by the list of the environment's answers, one per query. It may run for
  ever in the source; here a run that uses up the list without returning gives \<open>None\<close>.
\<close>

fun poll_loop ::
  "poll_args \<Rightarrow> (real \<times> service) list \<Rightarrow> loop_state \<Rightarrow> outcome option \<times> loop_state" where
  "poll_loop P [] s = (None, s)"
| "poll_loop P (q # qs) s =
     (case iteration P q s of
        (Some r, s') \<Rightarrow> (Some r, s')
      | (None, s') \<Rightarrow> poll_loop P qs s')"

text \<open>The state at loop entry, for a call that starts at instant \<open>t0\<close>.\<close>

definition initial_state :: "poll_args \<Rightarrow> real \<Rightarrow> loop_state" where
  "initial_state P t0 =
     \<lparr>clock = t0, deadline = t0 + max_wait_seconds P, backoff = 0, last_avails = [],
      trace = []\<rparr>"

definition poll_for_slot ::
  "poll_args \<Rightarrow> real \<Rightarrow> (real \<times> service) list \<Rightarrow> outcome option \<times> loop_state" where
  "poll_for_slot P t0 script = poll_loop P script (initial_state P t0)"

subsection \<open>Notions used to state the properties\<close>

text \<open>The default time filter, unless the caller gives a non-empty one.\<close>

abbreviation default_or_given :: "string option \<Rightarrow> string" where
  "default_or_given fh \<equiv>
     (case fh of None \<Rightarrow> ''08:00'' | Some s \<Rightarrow> if s = [] then ''08:00'' else s)"

text \<open>A slot list whose times can all be read and are in non-decreasing order.\<close>

definition sorted_by_time :: "slot list \<Rightarrow> bool" where
  "sorted_by_time S = (case traverse hora_minutes S of Inl e \<Rightarrow> False | Inr ks \<Rightarrow> sorted ks)"

text \<open>A slot whose time can be read and is at or after minute \<open>t\<close>.\<close>

definition at_or_after :: "int \<Rightarrow> slot \<Rightarrow> bool" where
  "at_or_after t e = (case hora_minutes e of Inl x \<Rightarrow> False | Inr k \<Rightarrow> t \<le> k)"

text \<open>The lengths of the backoff sleeps of a trace, in order, and the number of its queries.\<close>

fun backoff_sleeps :: "event list \<Rightarrow> real list" where
  "backoff_sleeps [] = []"
| "backoff_sleeps (BackoffSleep t d # es) = d # backoff_sleeps es"
| "backoff_sleeps (e # es) = backoff_sleeps es"

fun queries_made :: "event list \<Rightarrow> nat" where
  "queries_made [] = 0"
| "queries_made (Query t # es) = Suc (queries_made es)"
| "queries_made (e # es) = queries_made es"

text \<open>The instant at which an event begins.\<close>

fun begins :: "event \<Rightarrow> real" where
  "begins (Query t) = t"
| "begins (BackoffSleep t d) = t"
| "begins (PollSleep t d) = t"

fun is_poll_sleep :: "event \<Rightarrow> bool" where
  "is_poll_sleep (PollSleep t d) = True"
| "is_poll_sleep e = False"

text \<open>The slot list of the most recent successful query among \<open>qs\<close>, empty if there is none.\<close>

fun last_seen :: "poll_args \<Rightarrow> slot list \<Rightarrow> (real \<times> service) list \<Rightarrow> slot list" where
  "last_seen P acc [] = acc"
| "last_seen P acc (q # qs) =
     last_seen P (case query_result P q of Inl e \<Rightarrow> acc | Inr a \<Rightarrow> a) qs"


text \<open>The number of queries among \<open>qs\<close> that fail transiently.\<close>

definition failures :: "poll_args \<Rightarrow> (real \<times> service) list \<Rightarrow> nat" where
  "failures P qs = length (filter (\<lambda>q. query_result P q = Inl RequestException) qs)"

text \<open>The number of transient failures a call meets: those among the queries it makes.\<close>

definition failures_met :: "poll_args \<Rightarrow> real \<Rightarrow> (real \<times> service) list \<Rightarrow> nat" where
  "failures_met P t0 script =
     failures P (take (queries_made (trace (snd (poll_for_slot P t0 script)))) script)"

text \<open>The values slept over \<open>n\<close> transient failures, from a backoff of \<open>b\<close>.\<close>

fun backoff_run :: "real \<Rightarrow> nat \<Rightarrow> real list" where
  "backoff_run b 0 = []"
| "backoff_run b (Suc n) = next_backoff b # backoff_run (next_backoff b) n"

subsection \<open>Concrete inputs\<close>

definition slot_0800 :: slot where
  "slot_0800 = \<lparr>Fecha = ''2025-06-01'', Hora = Some ''08:00'', Recorrido = ''18 HOYOS'',
                 NumeroJugadoresMaximo = Some 2\<rparr>"

definition slot_0930 :: slot where
  "slot_0930 = \<lparr>Fecha = ''2025-06-01'', Hora = Some ''09:30'', Recorrido = ''18 HOYOS'',
                 NumeroJugadoresMaximo = Some 2\<rparr>"

definition slot_1000 :: slot where
  "slot_1000 = \<lparr>Fecha = ''2025-06-01'', Hora = Some ''10:00'', Recorrido = ''18 HOYOS'',
                 NumeroJugadoresMaximo = Some 4\<rparr>"

definition slot_1000_short :: slot where
  "slot_1000_short = \<lparr>Fecha = ''2025-06-01'', Hora = Some ''10:00'', Recorrido = ''9 HOYOS'',
                       NumeroJugadoresMaximo = None\<rparr>"

definition slot_single :: slot where
  "slot_single = \<lparr>Fecha = ''2025-06-01'', Hora = Some ''07:00'', Recorrido = ''18 HOYOS'',
                   NumeroJugadoresMaximo = Some 1\<rparr>"

text \<open>A service that is down, and one that answers with a given list.\<close>

definition failing :: service where
  "failing = (\<lambda>body. RequestFailed)"

definition answering :: "slot list \<Rightarrow> service" where
  "answering slots = (\<lambda>body. Json slots)"

definition example_args :: poll_args where
  "example_args =
     \<lparr>token = ''secret'', the_date = ''2025-06-01'', recorrido = ''18 HOYOS'', players = 2,
      filtro_hora = None, mode = ''closest'', target_time = Some ''09:00'',
      poll_every = 1, max_wait_seconds = 100\<rparr>"

definition short_wait_args :: poll_args where
  "short_wait_args = example_args\<lparr>max_wait_seconds := 1\<rparr>"

section \<open>Properties\<close>

subsection \<open>Auxiliary facts\<close>

lemmas parse_defs =
  to_minutes_def py_int_def strip_def is_space_def unsigned_int_def is_digit_def
  digit_value_def

lemmas slot_defs =
  slot_0800_def slot_0930_def slot_1000_def slot_1000_short_def slot_single_def
  hora_minutes_def max_players_def

lemmas loop_defs =
  poll_for_slot_def initial_state_def iteration_def after_attempt_def query_result_def
  get_availability_def pick_slot_def truthy_def next_backoff_def failing_def answering_def
  example_args_def short_wait_args_def Let_def

lemma payload_FiltroHora:
  "availability_payload tok d r p fh ''FiltroHora'' = Some (JStr (default_or_given fh))"
  by (auto simp: availability_payload_def truthy_def split: option.splits)

lemma traverse_Inr_map: "traverse f xs = Inr ys \<Longrightarrow> map f xs = map Inr ys"
  by (induction xs arbitrary: ys) (auto split: sum.splits)

lemma sorted_by_time_Cons:
  "sorted_by_time (a # as) \<Longrightarrow>
     sorted_by_time as \<and>
     (\<exists>k. hora_minutes a = Inr k \<and> (\<forall>e\<in>set as. \<exists>k'. hora_minutes e = Inr k' \<and> k \<le> k'))"
proof -
  assume h: "sorted_by_time (a # as)"
  then obtain k ks where k: "hora_minutes a = Inr k" and ks: "traverse hora_minutes as = Inr ks"
    and srt: "sorted (k # ks)"
    by (auto simp: sorted_by_time_def split: sum.splits)
  have m: "map hora_minutes as = map Inr ks" using ks by (rule traverse_Inr_map)
  have "\<exists>k'. hora_minutes e = Inr k' \<and> k \<le> k'" if "e \<in> set as" for e
  proof -
    from that have "hora_minutes e \<in> set (map hora_minutes as)" by simp
    then obtain k' where "k' \<in> set ks" "hora_minutes e = Inr k'" using m by auto
    then show ?thesis using srt by auto
  qed
  then show ?thesis using k ks srt by (auto simp: sorted_by_time_def)
qed

lemma candidates_from_filter:
  "traverse hora_minutes S = Inr ks \<Longrightarrow> candidates_from t S = Inr (filter (at_or_after t) S)"
  by (induction S arbitrary: ks) (auto simp: at_or_after_def split: sum.splits)

lemma find_filter_case:
  "find Q xs = (case filter Q xs of [] \<Rightarrow> None | x # _ \<Rightarrow> Some x)"
  by (induction xs) auto

lemma first_at_or_after_minimal:
  "sorted_by_time S \<Longrightarrow> find (at_or_after t) S = Some c \<Longrightarrow>
     c \<in> set S \<and> (\<exists>kc. hora_minutes c = Inr kc \<and> t \<le> kc \<and>
        (\<forall>e\<in>set S. \<forall>k. hora_minutes e = Inr k \<and> t \<le> k \<longrightarrow> kc \<le> k))"
proof (induction S)
  case Nil
  then show ?case by simp
next
  case (Cons a as)
  from sorted_by_time_Cons[OF Cons.prems(1)] obtain k where
    tl: "sorted_by_time as" and k: "hora_minutes a = Inr k"
    and le: "\<forall>e\<in>set as. \<exists>k'. hora_minutes e = Inr k' \<and> k \<le> k'" by blast
  show ?case
  proof (cases "at_or_after t a")
    case True
    then have "c = a" using Cons.prems(2) by simp
    moreover have "t \<le> k" using True k by (simp add: at_or_after_def)
    ultimately show ?thesis using k le by fastforce
  next
    case False
    then have f: "find (at_or_after t) as = Some c" using Cons.prems(2) by simp
    from Cons.IH[OF tl f] obtain kc where c: "c \<in> set as" "hora_minutes c = Inr kc" "t \<le> kc"
      and mn: "\<forall>e\<in>set as. \<forall>k. hora_minutes e = Inr k \<and> t \<le> k \<longrightarrow> kc \<le> k" by blast
    have "\<not> t \<le> k" using False k by (simp add: at_or_after_def)
    then show ?thesis using c mn k by auto
  qed
qed

lemma traverse_Inl_witness: "traverse f xs = Inl e \<Longrightarrow> \<exists>x\<in>set xs. f x = Inl e"
  by (induction xs) (auto split: sum.splits)

lemma traverse_map_Inr: "map f xs = map Inr ys \<Longrightarrow> traverse f xs = Inr ys"
  by (induction xs arbitrary: ys) auto

text \<open>Sorting decorated elements by their key is sorting the elements by the key function.\<close>

lemma insort_key_decorated:
  "insort_key fst (g x, x) (map (\<lambda>a. (g a, a)) xs) = map (\<lambda>a. (g a, a)) (insort_key g x xs)"
  by (induction xs) auto

lemma sort_key_decorated:
  "sort_key fst (map (\<lambda>a. (g a, a)) xs) = map (\<lambda>a. (g a, a)) (sort_key g xs)"
  by (induction xs) (simp_all add: insort_key_decorated)

lemma zip_keys_decorated:
  "map f xs = map Inr ks \<Longrightarrow> zip ks xs = map (\<lambda>a. (projr (f a), a)) xs"
  by (induction xs arbitrary: ks) auto

lemma undecorate_sorted:
  assumes "map f xs = map Inr ks"
  shows "map snd (sort_key fst (zip ks xs)) = sort_key (\<lambda>a. projr (f a)) xs"
  by (simp add: zip_keys_decorated[OF assms] sort_key_decorated o_def)

lemma all_Inr_projr: "map f xs = map Inr ks \<Longrightarrow> x \<in> set xs \<Longrightarrow> f x = Inr (projr (f x))"
  by (induction xs arbitrary: ks) auto

lemma backoff_sleeps_append: "backoff_sleeps (xs @ ys) = backoff_sleeps xs @ backoff_sleeps ys"
  by (induction xs rule: backoff_sleeps.induct) auto

lemma queries_made_append: "queries_made (xs @ ys) = queries_made xs + queries_made ys"
  by (induction xs rule: queries_made.induct) auto

lemma next_backoff_bounds: "0 \<le> b \<Longrightarrow> 0 \<le> next_backoff b" "next_backoff b \<le> 8"
  by (auto simp: next_backoff_def)

text \<open>What one pass does to each part of the state.\<close>

lemma iteration_effect:
  assumes "iteration P q s = (r, s')"
  shows "deadline s' = deadline s"
    and "queries_made (trace s') = Suc (queries_made (trace s))"
    and "last_avails s' = (case query_result P q of Inl e \<Rightarrow> last_avails s | Inr a \<Rightarrow> a)"
    and "backoff s' = (if query_result P q = Inl RequestException then next_backoff (backoff s) else backoff s)"
    and "backoff_sleeps (trace s') = backoff_sleeps (trace s) @
           (if query_result P q = Inl RequestException then [next_backoff (backoff s)] else [])"
  using assms
  by (auto simp: iteration_def after_attempt_def Let_def backoff_sleeps_append queries_made_append
      split: sum.splits option.splits if_splits)


lemma poll_loop_run:
  "poll_loop P qs s = (r, s') \<Longrightarrow>
     \<exists>k\<le>length qs.
        queries_made (trace s') = queries_made (trace s) + k \<and>
        (r \<noteq> None \<longrightarrow> 0 < k) \<and>
        deadline s' = deadline s \<and>
        last_avails s' = last_seen P (last_avails s) (take k qs) \<and>
        backoff_sleeps (trace s') =
          backoff_sleeps (trace s) @ backoff_run (backoff s) (failures P (take k qs))"
proof (induction qs arbitrary: s)
  case Nil
  then show ?case by (simp add: failures_def)
next
  case (Cons q qs)
  obtain r1 s1 where it: "iteration P q s = (r1, s1)" by (cases "iteration P q s")
  note eff = iteration_effect[OF it]
  show ?case
  proof (cases r1)
    case (Some x)
    then have "r = Some x" "s' = s1" using Cons.prems it by auto
    then show ?thesis using eff
      by (intro exI[of _ 1]) (auto simp: failures_def split: sum.splits)
  next
    case None
    then have "poll_loop P qs s1 = (r, s')" using Cons.prems it by simp
    from Cons.IH[OF this] obtain k where k: "k \<le> length qs"
      "queries_made (trace s') = queries_made (trace s1) + k"
      "r \<noteq> None \<longrightarrow> 0 < k"
      "deadline s' = deadline s1"
      "last_avails s' = last_seen P (last_avails s1) (take k qs)"
      "backoff_sleeps (trace s') =
          backoff_sleeps (trace s1) @ backoff_run (backoff s1) (failures P (take k qs))"
      by blast
    show ?thesis using k eff
      by (intro exI[of _ "Suc k"]) (auto simp: failures_def split: sum.splits)
  qed
qed




lemma backoff_run_from_zero: "backoff_run 0 n = take n [2, 4] @ replicate (n - 2) 8"
proof -
  have 8: "backoff_run 8 n = replicate n 8" for n
    by (induction n) (simp_all add: next_backoff_def)
  have 4: "backoff_run 4 n = replicate n 8" for n
    by (cases n) (simp_all add: next_backoff_def 8)
  have 2: "backoff_run 2 n = take n [4] @ replicate (n - 1) 8" for n
    by (cases n) (simp_all add: next_backoff_def 4)
  show ?thesis
    by (cases n) (simp_all add: next_backoff_def 2)
qed

lemma iteration_poll_sleeps:
  assumes "iteration P q s = (r, s')"
    and "\<forall>e\<in>set (trace s). is_poll_sleep e \<longrightarrow> begins e < deadline s"
  shows "\<forall>e\<in>set (trace s'). is_poll_sleep e \<longrightarrow> begins e < deadline s"
  using assms
  by (auto simp: iteration_def after_attempt_def Let_def
      split: sum.splits option.splits if_splits)

lemma poll_loop_poll_sleeps:
  "poll_loop P qs s = (r, s') \<Longrightarrow>
   \<forall>e\<in>set (trace s). is_poll_sleep e \<longrightarrow> begins e < deadline s \<Longrightarrow>
   \<forall>e\<in>set (trace s'). is_poll_sleep e \<longrightarrow> begins e < deadline s"
proof (induction qs arbitrary: s)
  case Nil
  then show ?case by simp
next
  case (Cons q qs)
  obtain r1 s1 where it: "iteration P q s = (r1, s1)" by (cases "iteration P q s")
  have ok: "\<forall>e\<in>set (trace s1). is_poll_sleep e \<longrightarrow> begins e < deadline s1"
    using iteration_poll_sleeps[OF it Cons.prems(2)] iteration_effect(1)[OF it] by simp
  show ?case
  proof (cases r1)
    case (Some x)
    then show ?thesis using Cons.prems(1) it ok iteration_effect(1)[OF it] by auto
  next
    case None
    then have "poll_loop P qs s1 = (r, s')" using Cons.prems(1) it by simp
    from Cons.IH[OF this ok] show ?thesis using iteration_effect(1)[OF it] by simp
  qed
qed

lemma iteration_span:
  assumes "iteration P q s = (r, s')" and "0 \<le> poll_every P" and "fst q \<le> D"
    and "clock s \<le> deadline s + poll_every P"
  shows "r \<noteq> None \<Longrightarrow> clock s' \<le> deadline s + poll_every P + D + 8"
    and "r = None \<Longrightarrow> clock s' \<le> deadline s + poll_every P"
  using assms next_backoff_bounds(2)[of "backoff s"]
  by (auto simp: iteration_def after_attempt_def Let_def
      split: sum.splits option.splits if_splits)

lemma poll_loop_span:
  "poll_loop P qs s = (r, s') \<Longrightarrow> 0 \<le> poll_every P \<Longrightarrow> \<forall>q\<in>set qs. fst q \<le> D \<Longrightarrow>
   clock s \<le> deadline s + poll_every P \<Longrightarrow> r \<noteq> None \<Longrightarrow>
   clock s' \<le> deadline s + poll_every P + D + 8"
proof (induction qs arbitrary: s)
  case Nil
  then show ?case by simp
next
  case (Cons q qs)
  obtain r1 s1 where it: "iteration P q s = (r1, s1)" by (cases "iteration P q s")
  have D: "fst q \<le> D" using Cons.prems(3) by simp
  note sp = iteration_span[OF it Cons.prems(2) D Cons.prems(4)]
  show ?case
  proof (cases r1)
    case (Some x)
    then show ?thesis using Cons.prems(1) it sp(1) by auto
  next
    case None
    then have run: "poll_loop P qs s1 = (r, s')" using Cons.prems(1) it by simp
    have "clock s1 \<le> deadline s1 + poll_every P"
      using sp(2)[OF None] iteration_effect(1)[OF it] by simp
    from Cons.IH[OF run Cons.prems(2) _ this Cons.prems(5)] Cons.prems(3)
    show ?thesis using iteration_effect(1)[OF it] by simp
  qed
qed

subsection \<open>Slot selection\<close>

text \<open>
  Claim C2. On a slot list sorted by time of day and with a target time that is supplied
  and can be read as minute \<open>t\<close>, \<open>pick_slot\<close> in mode \<open>closest\<close> returns the first
  element whose time is at or after \<open>t\<close>. The result is \<open>None\<close> exactly when no element
  has a time at or after \<open>t\<close>; a selected slot is an element of the list, its time is never
  before \<open>t\<close>, and no element at or after \<open>t\<close> has an earlier time.
\<close>

theorem pick_slot_closest:
  assumes "sorted_by_time S" and "tt \<noteq> []" and "to_minutes tt = Inr t"
  shows "pick_slot S ''closest'' (Some tt) = Inr (find (at_or_after t) S) \<and>
         (find (at_or_after t) S = None \<longleftrightarrow>
            \<not> (\<exists>e\<in>set S. \<exists>k. hora_minutes e = Inr k \<and> t \<le> k)) \<and>
         (\<forall>c. find (at_or_after t) S = Some c \<longrightarrow>
            c \<in> set S \<and>
            (\<exists>kc. hora_minutes c = Inr kc \<and> t \<le> kc \<and>
               (\<forall>e\<in>set S. \<forall>k. hora_minutes e = Inr k \<and> t \<le> k \<longrightarrow> kc \<le> k)))"
proof -
  from assms(1) obtain ks where ks: "traverse hora_minutes S = Inr ks"
    by (auto simp: sorted_by_time_def split: sum.splits)
  have "pick_slot S ''closest'' (Some tt) = Inr (find (at_or_after t) S)"
    using assms(2,3) candidates_from_filter[OF ks, of t]
    by (cases S) (auto simp: pick_slot_def truthy_def find_filter_case split: list.splits)
  moreover have "find (at_or_after t) S = None \<longleftrightarrow>
      \<not> (\<exists>e\<in>set S. \<exists>k. hora_minutes e = Inr k \<and> t \<le> k)"
    by (auto simp: find_None_iff at_or_after_def split: sum.splits)
  ultimately show ?thesis using first_at_or_after_minimal[OF assms(1)] by blast
qed

theorem pick_slot_closest_witness:
  "sorted_by_time [slot_0930, slot_1000] \<and> to_minutes ''09:45'' = Inr 585 \<and>
   pick_slot [slot_0930, slot_1000] ''closest'' (Some ''09:45'') = Inr (Some slot_1000)"
proof -
  have srt: "sorted_by_time [slot_0930, slot_1000]"
    by (simp add: sorted_by_time_def slot_defs parse_defs)
  have ne: "''09:45'' \<noteq> []" by simp
  have tm: "to_minutes ''09:45'' = Inr 585" by (simp add: parse_defs)
  have "find (at_or_after 585) [slot_0930, slot_1000] = Some slot_1000"
    by (simp add: at_or_after_def slot_defs parse_defs)
  then show ?thesis using pick_slot_closest[OF srt ne tm] srt tm by simp
qed

text \<open>
  Claim C6. In mode \<open>earliest\<close>, \<open>pick_slot\<close> returns \<open>None\<close> exactly when the list is
  empty, and the first element of a non-empty list; when the list is sorted by time of day,
  no element of the list has an earlier time than that first element.
\<close>

theorem pick_slot_earliest:
  "(pick_slot S ''earliest'' tt = Inr None \<longleftrightarrow> S = []) \<and>
   (\<forall>a as. S = a # as \<longrightarrow>
      pick_slot S ''earliest'' tt = Inr (Some a) \<and>
      (sorted_by_time S \<longrightarrow>
         (\<exists>k. hora_minutes a = Inr k \<and>
            (\<forall>e\<in>set S. \<exists>k'. hora_minutes e = Inr k' \<and> k \<le> k'))))"
proof -
  have "\<exists>k. hora_minutes a = Inr k \<and> (\<forall>e\<in>set (a # as). \<exists>k'. hora_minutes e = Inr k' \<and> k \<le> k')"
    if "sorted_by_time (a # as)" for a as
    using sorted_by_time_Cons[OF that] by auto
  then show ?thesis by (cases S) (auto simp: pick_slot_def)
qed

theorem pick_slot_earliest_witness:
  "sorted_by_time [slot_0930, slot_1000] \<and>
   pick_slot [slot_0930, slot_1000] ''earliest'' None = Inr (Some slot_0930) \<and>
   hora_minutes slot_0930 = Inr 570 \<and> hora_minutes slot_1000 = Inr 600 \<and>
   pick_slot [] ''earliest'' None = Inr None"
proof -
  have srt: "sorted_by_time [slot_0930, slot_1000]"
    by (simp add: sorted_by_time_def slot_defs parse_defs)
  have tms: "hora_minutes slot_0930 = Inr 570" "hora_minutes slot_1000 = Inr 600"
    by (simp_all add: slot_defs parse_defs)
  show ?thesis
    using pick_slot_earliest[of "[slot_0930, slot_1000]" None]
      pick_slot_earliest[of "[]" None] srt tms
    by simp
qed

text \<open>
  Claim C10. With mode \<open>closest\<close> and no target time, \<open>pick_slot\<close> returns the first
  element of a non-empty list, as mode \<open>earliest\<close> does. With a mode that is neither
  \<open>earliest\<close> nor \<open>closest\<close>, it raises (and then it is \<open>ValueError\<close>) exactly when the
  list is non-empty and a non-empty target time is given; without a target time it returns
  the first element of a non-empty list.
\<close>

theorem pick_slot_fallthrough:
  "pick_slot (a # as) ''closest'' None = Inr (Some a) \<and>
   (m \<noteq> ''earliest'' \<and> m \<noteq> ''closest'' \<longrightarrow>
      (\<forall>e. pick_slot avails m tt = Inl e \<longleftrightarrow> e = ValueError \<and> avails \<noteq> [] \<and> truthy tt) \<and>
      pick_slot (a # as) m None = Inr (Some a))"
  by (cases avails) (auto simp: pick_slot_def truthy_def)

theorem pick_slot_fallthrough_witness:
  "pick_slot [slot_1000, slot_0930] ''closest'' None = Inr (Some slot_1000) \<and>
   pick_slot [slot_1000, slot_0930] ''latest'' (Some ''09:00'') = Inl ValueError \<and>
   pick_slot [slot_1000, slot_0930] ''latest'' None = Inr (Some slot_1000)"
proof -
  have md: "''latest'' \<noteq> ''earliest'' \<and> ''latest'' \<noteq> ''closest''" by simp
  have tr: "truthy (Some ''09:00'')" by (simp add: truthy_def)
  show ?thesis
    using pick_slot_fallthrough[of slot_1000 "[slot_0930]" "''latest''"
        "[slot_1000, slot_0930]" "Some ''09:00''"] md tr
    by simp
qed

subsection \<open>The availability query\<close>

text \<open>
  Claim C9. Every call of \<open>get_availability\<close> sends a body that has the field
  \<open>FiltroHora\<close>: it is \<open>08:00\<close> when the caller gives no filter (\<open>None\<close> or the empty
  string) and the caller's value otherwise, so a caller asking for no filter gets a query
  filtered by the default. The body is the one the service receives: what the service would
  do with a body that lacks this value of the field has no effect on the call, a service
  that fails on the bodies having it makes the call fail, and a service that answers only
  the bodies having it gets its answer through.
\<close>

theorem payload_always_has_FiltroHora:
  "availability_payload tok d r p fh ''FiltroHora'' = Some (JStr (default_or_given fh)) \<and>
   get_availability post tok d r p fh =
     get_availability
       (\<lambda>body. if body ''FiltroHora'' = Some (JStr (default_or_given fh)) then post body
               else RequestFailed)
       tok d r p fh \<and>
   get_availability
     (\<lambda>body. if body ''FiltroHora'' = Some (JStr (default_or_given fh)) then RequestFailed
             else Json [])
     tok d r p fh = Inl RequestException \<and>
   get_availability
     (\<lambda>body. if body ''FiltroHora'' = Some (JStr (default_or_given fh)) then Json []
             else RequestFailed)
     tok d r p fh = Inr []"
  by (simp add: get_availability_def payload_FiltroHora)

theorem payload_always_has_FiltroHora_witness:
  "availability_payload ''secret'' ''2025-06-01'' ''18 HOYOS'' 2 None ''FiltroHora'' =
     Some (JStr ''08:00'') \<and>
   availability_payload ''secret'' ''2025-06-01'' ''18 HOYOS'' 2 (Some []) ''FiltroHora'' =
     Some (JStr ''08:00'') \<and>
   availability_payload ''secret'' ''2025-06-01'' ''18 HOYOS'' 2 (Some ''07:30'') ''FiltroHora'' =
     Some (JStr ''07:30'') \<and>
   get_availability
     (\<lambda>body. if body ''FiltroHora'' = Some (JStr ''08:00'') then answering [slot_0930] body
             else RequestFailed)
     ''secret'' ''2025-06-01'' ''18 HOYOS'' 2 None = Inr [slot_0930] \<and>
   get_availability
     (\<lambda>body. if body ''FiltroHora'' = Some (JStr ''07:30'') then RequestFailed else Json [])
     ''secret'' ''2025-06-01'' ''18 HOYOS'' 2 (Some ''07:30'') = Inl RequestException"
proof -
  have res: "get_availability (answering [slot_0930]) ''secret'' ''2025-06-01'' ''18 HOYOS'' 2
      None = Inr [slot_0930]"
    by (simp add: get_availability_def answering_def slot_defs parse_defs)
  show ?thesis
    using payload_always_has_FiltroHora[of "''secret''" "''2025-06-01''" "''18 HOYOS''" 2 None
        "answering [slot_0930]"]
      payload_always_has_FiltroHora[of "''secret''" "''2025-06-01''" "''18 HOYOS''" 2 "Some []"
        failing]
      payload_always_has_FiltroHora[of "''secret''" "''2025-06-01''" "''18 HOYOS''" 2
        "Some ''07:30''" failing]
      res
    by simp
qed

text \<open>
  Claim C3. When the service answers with a list, \<open>get_availability\<close> either raises
  because the time of an element with enough capacity cannot be read, or returns a list in
  which every element has capacity for the party (a missing capacity counting as 4), which
  is sorted by time of day, and in which the elements of any one time of day are those of
  the answer with enough capacity, in the answer's order.
\<close>

theorem get_availability_filtered_sorted:
  assumes "post (availability_payload tok d r p fh) = Json data"
  shows "case get_availability post tok d r p fh of
           Inl e \<Rightarrow> \<exists>x\<in>set data. p \<le> max_players x \<and> hora_minutes x = Inl e
         | Inr S \<Rightarrow>
             (\<forall>e\<in>set S. p \<le> max_players e) \<and>
             sorted_by_time S \<and>
             (\<forall>k. filter (\<lambda>e. hora_minutes e = Inr k) S =
                  filter (\<lambda>e. hora_minutes e = Inr k) (filter (\<lambda>x. p \<le> max_players x) data))"
proof (cases "get_availability post tok d r p fh")
  case (Inl e)
  then have "\<exists>x\<in>set data. p \<le> max_players x \<and> hora_minutes x = Inl e"
    using assms
    by (auto simp: get_availability_def Let_def split: sum.splits dest!: traverse_Inl_witness)
  then show ?thesis using Inl by simp
next
  case (Inr S)
  define avails where "avails = filter (\<lambda>x. p \<le> max_players x) data"
  define key where "key = (\<lambda>a. projr (hora_minutes a))"
  from Inr assms obtain ks where
    ks: "traverse hora_minutes avails = Inr ks"
    and S: "S = map snd (sort_key fst (zip ks avails))"
    by (auto simp: get_availability_def Let_def avails_def split: sum.splits)
  have m: "map hora_minutes avails = map Inr ks"
    using ks by (rule traverse_Inr_map)
  have S': "S = sort_key key avails"
    using S undecorate_sorted[OF m] by (simp add: key_def)
  have rd: "hora_minutes e = Inr (key e)" if "e \<in> set avails" for e
    using all_Inr_projr[OF m that] by (simp add: key_def)
  have cap: "\<forall>e\<in>set S. p \<le> max_players e"
    by (simp add: S' avails_def)
  have "map hora_minutes S = map Inr (map key S)"
    using rd by (simp add: S')
  then have "traverse hora_minutes S = Inr (map key S)" by (rule traverse_map_Inr)
  moreover have "sorted (map key S)" by (simp add: S')
  ultimately have srt: "sorted_by_time S" by (simp add: sorted_by_time_def)
  have stable: "filter (\<lambda>e. hora_minutes e = Inr k) S = filter (\<lambda>e. hora_minutes e = Inr k) avails"
    for k
  proof -
    have "filter (\<lambda>e. hora_minutes e = Inr k) S = filter (\<lambda>e. key e = k) S"
      by (rule filter_cong) (auto simp: S' dest: rd)
    also have "\<dots> = filter (\<lambda>e. key e = k) avails"
      by (simp add: S' sort_key_stable)
    also have "\<dots> = filter (\<lambda>e. hora_minutes e = Inr k) avails"
      by (rule filter_cong) (auto dest: rd)
    finally show ?thesis .
  qed
  show ?thesis using Inr cap srt stable by (simp add: avails_def)
qed

theorem get_availability_filtered_sorted_witness:
  "answering [slot_1000, slot_single, slot_1000_short, slot_0930]
     (availability_payload ''secret'' ''2025-06-01'' ''18 HOYOS'' 2 None) =
     Json [slot_1000, slot_single, slot_1000_short, slot_0930] \<and>
   get_availability (answering [slot_1000, slot_single, slot_1000_short, slot_0930])
     ''secret'' ''2025-06-01'' ''18 HOYOS'' 2 None =
     Inr [slot_0930, slot_1000, slot_1000_short] \<and>
   sorted_by_time [slot_0930, slot_1000, slot_1000_short]"
proof -
  have ans: "answering [slot_1000, slot_single, slot_1000_short, slot_0930]
     (availability_payload ''secret'' ''2025-06-01'' ''18 HOYOS'' 2 None) =
     Json [slot_1000, slot_single, slot_1000_short, slot_0930]"
    by (simp add: answering_def)
  have res: "get_availability (answering [slot_1000, slot_single, slot_1000_short, slot_0930])
     ''secret'' ''2025-06-01'' ''18 HOYOS'' 2 None =
     Inr [slot_0930, slot_1000, slot_1000_short]"
    by (simp add: get_availability_def answering_def slot_defs parse_defs)
  show ?thesis
    using get_availability_filtered_sorted[of
        "answering [slot_1000, slot_single, slot_1000_short, slot_0930]"
        "''secret''" "''2025-06-01''" "''18 HOYOS''" 2 None
        "[slot_1000, slot_single, slot_1000_short, slot_0930]", OF ans] ans res
    by simp
qed

subsection \<open>The polling loop: what a pass does to the state\<close>

text \<open>
  Claim C8. A pass whose query fails transiently leaves \<open>last_avails\<close> as it was; after
  any pass, \<open>last_avails\<close> is either unchanged or the list that the pass's successful query
  returned.
\<close>

theorem transient_failure_keeps_last_avails:
  "(query_result P q = Inl RequestException \<longrightarrow>
      last_avails (snd (iteration P q s)) = last_avails s) \<and>
   last_avails (snd (iteration P q s)) =
     (case query_result P q of Inl e \<Rightarrow> last_avails s | Inr a \<Rightarrow> a)"
proof -
  obtain r s' where it: "iteration P q s = (r, s')" by (cases "iteration P q s")
  show ?thesis using iteration_effect(3)[OF it] it by simp
qed

theorem transient_failure_keeps_last_avails_witness:
  "query_result example_args (0, failing) = Inl RequestException \<and>
   last_avails (snd (iteration example_args (0, failing)
      ((initial_state example_args 0)\<lparr>last_avails := [slot_0800]\<rparr>))) = [slot_0800]"
proof -
  have f: "query_result example_args (0, failing) = Inl RequestException"
    by (simp add: query_result_def get_availability_def failing_def)
  show ?thesis
    using transient_failure_keeps_last_avails[of example_args "(0, failing)"
        "(initial_state example_args 0)\<lparr>last_avails := [slot_0800]\<rparr>"] f
    by simp
qed

text \<open>
  Claim C1, as the code has it. A successful query leaves the backoff value as it was: it is
  zero only from loop entry until the first transient failure. So when a pass with a
  successful query is followed by a pass whose query fails transiently, the loop sleeps for
  \<open>next_backoff b\<close>, where \<open>b\<close> is the backoff value before the success: 2 when \<open>b\<close> is
  zero, and otherwise twice \<open>b\<close>, at most 8.
\<close>

theorem success_keeps_backoff:
  assumes "query_result P q1 = Inr a"
  shows "backoff (snd (iteration P q1 s)) = backoff s \<and>
         (fst (iteration P q1 s) = None \<and> query_result P q2 = Inl RequestException \<longrightarrow>
            backoff_sleeps (trace (snd (iteration P q2 (snd (iteration P q1 s))))) =
              backoff_sleeps (trace s) @ [next_backoff (backoff s)]) \<and>
         backoff (initial_state P t0) = 0 \<and> next_backoff 0 = 2"
proof -
  obtain r1 s1 where it1: "iteration P q1 s = (r1, s1)" by (cases "iteration P q1 s")
  obtain r2 s2 where it2: "iteration P q2 s1 = (r2, s2)" by (cases "iteration P q2 s1")
  have b1: "backoff s1 = backoff s" and t1: "backoff_sleeps (trace s1) = backoff_sleeps (trace s)"
    using iteration_effect(4,5)[OF it1] assms by simp_all
  have "backoff_sleeps (trace s2) = backoff_sleeps (trace s) @ [next_backoff (backoff s)]"
    if "query_result P q2 = Inl RequestException"
    using iteration_effect(5)[OF it2] that b1 t1 by simp
  then show ?thesis using it1 it2 b1 by (simp add: initial_state_def next_backoff_def)
qed

theorem success_keeps_backoff_witness:
  "query_result example_args (0, answering [slot_0800]) = Inr [slot_0800] \<and>
   backoff (snd (poll_for_slot example_args 0 [(0, failing), (0, failing)])) = 4 \<and>
   backoff (snd (iteration example_args (0, answering [slot_0800])
      (snd (poll_for_slot example_args 0 [(0, failing), (0, failing)])))) = 4 \<and>
   backoff_sleeps (trace (snd (iteration example_args (0, failing)
      (snd (iteration example_args (0, answering [slot_0800])
         (snd (poll_for_slot example_args 0 [(0, failing), (0, failing)]))))))) = [2, 4, 8]"
proof -
  have ok: "query_result example_args (0, answering [slot_0800]) = Inr [slot_0800]"
    by (simp add: query_result_def get_availability_def answering_def example_args_def
        slot_defs parse_defs)
  have f: "query_result example_args (0, failing) = Inl RequestException"
    by (simp add: query_result_def get_availability_def failing_def)
  have st: "backoff (snd (poll_for_slot example_args 0 [(0, failing), (0, failing)])) = 4"
    "backoff_sleeps (trace (snd (poll_for_slot example_args 0 [(0, failing), (0, failing)]))) = [2, 4]"
    by (simp_all add: loop_defs)
  have cont: "fst (iteration example_args (0, answering [slot_0800])
      (snd (poll_for_slot example_args 0 [(0, failing), (0, failing)]))) = None"
    by (simp add: loop_defs slot_defs parse_defs)
  show ?thesis
    using success_keeps_backoff[OF ok,
        of "snd (poll_for_slot example_args 0 [(0, failing), (0, failing)])" "(0, failing)"]
      ok f st cont
    by (simp add: next_backoff_def)
qed

theorem backoff_not_reset_counterexample:
  "query_result example_args (0, answering []) = Inr [] \<and>
   backoff (snd (poll_for_slot example_args 0 [(0, failing), (0, answering [])])) = 2 \<and>
   backoff_sleeps (trace (snd (poll_for_slot example_args 0
      [(0, failing), (0, answering []), (0, failing)]))) = [2, 4]"
  by (simp add: loop_defs)

subsection \<open>The polling loop: a whole call\<close>

text \<open>
  Claim C7, as the code has it. The loop sleeps for the new backoff value after each
  transient failure, and that value is \<open>next_backoff\<close> of the value left by the previous
  transient failure of the call, whether or not successful queries came in between. So the
  values slept over a call are 2, 4, 8, 8, ..., one per transient failure met; a run of
  consecutive failures starts at 2 only when it holds the first failure of the call.
\<close>

theorem backoff_sequence_over_call:
  "backoff_sleeps (trace (snd (poll_for_slot P t0 script))) =
     take (failures_met P t0 script) [2, 4] @ replicate (failures_met P t0 script - 2) 8 \<and>
   (query_result P q = Inl RequestException \<longrightarrow>
      backoff (snd (iteration P q s)) = next_backoff (backoff s) \<and>
      backoff_sleeps (trace (snd (iteration P q s))) =
        backoff_sleeps (trace s) @ [next_backoff (backoff s)])"
proof -
  obtain r s' where run: "poll_for_slot P t0 script = (r, s')"
    by (cases "poll_for_slot P t0 script")
  from poll_loop_run[OF run[unfolded poll_for_slot_def]] obtain k where
    "queries_made (trace s') = k"
    "backoff_sleeps (trace s') = backoff_run 0 (failures P (take k script))"
    by (auto simp: initial_state_def)
  then have whole: "backoff_sleeps (trace (snd (poll_for_slot P t0 script))) =
     take (failures_met P t0 script) [2, 4] @ replicate (failures_met P t0 script - 2) 8"
    using run by (simp add: failures_met_def backoff_run_from_zero)
  obtain r1 s1 where it: "iteration P q s = (r1, s1)" by (cases "iteration P q s")
  show ?thesis using whole iteration_effect(4,5)[OF it] it by simp
qed

theorem backoff_sequence_over_call_witness:
  "failures_met example_args 0
     [(0, failing), (0, answering [slot_0800]), (0, failing), (0, failing), (0, failing)] = 4 \<and>
   backoff_sleeps (trace (snd (poll_for_slot example_args 0
     [(0, failing), (0, answering [slot_0800]), (0, failing), (0, failing), (0, failing)]))) =
     [2, 4, 8, 8] \<and>
   query_result example_args (0, failing) = Inl RequestException \<and>
   backoff (snd (iteration example_args (0, failing) (initial_state example_args 0))) = 2"
proof -
  have f: "query_result example_args (0, failing) = Inl RequestException"
    by (simp add: query_result_def get_availability_def failing_def)
  have n: "failures_met example_args 0
     [(0, failing), (0, answering [slot_0800]), (0, failing), (0, failing), (0, failing)] = 4"
    by (simp add: failures_met_def failures_def loop_defs slot_defs parse_defs)
  show ?thesis
    using backoff_sequence_over_call[of example_args 0
        "[(0, failing), (0, answering [slot_0800]), (0, failing), (0, failing), (0, failing)]"
        "(0, failing)" "initial_state example_args 0"] f n
    by (simp add: next_backoff_def initial_state_def numeral_2_eq_2)
qed

theorem backoff_run_after_success_counterexample:
  "query_result example_args (0, answering []) = Inr [] \<and>
   backoff_sleeps (trace (snd (poll_for_slot example_args 0
      [(0, failing), (0, failing), (0, answering [])]))) = [2, 4] \<and>
   backoff_sleeps (trace (snd (poll_for_slot example_args 0
      [(0, failing), (0, failing), (0, answering []), (0, failing), (0, failing)]))) =
     [2, 4, 8, 8]"
  by (simp add: loop_defs)




text \<open>
  Claim C4, as the code has it. The loop tests the deadline once per pass, after the query
  and after the backoff sleep of a failed query. A poll-interval sleep therefore always
  begins before the deadline. A backoff sleep, and the query after a poll-interval sleep,
  can begin at or past it; with a non-negative poll interval and waiting time and queries
  that take at most \<open>D\<close>, a call that ends does so no later than the waiting time plus one
  poll interval, one query and one backoff sleep of at most 8 after its start.
\<close>

theorem poll_sleep_before_deadline_and_span:
  "(\<forall>e\<in>set (trace (snd (poll_for_slot P t0 script))).
       is_poll_sleep e \<longrightarrow> begins e < t0 + max_wait_seconds P) \<and>
   (0 \<le> poll_every P \<and> 0 \<le> max_wait_seconds P \<and> (\<forall>q\<in>set script. fst q \<le> D) \<and>
    fst (poll_for_slot P t0 script) \<noteq> None \<longrightarrow>
      clock (snd (poll_for_slot P t0 script)) \<le>
        t0 + max_wait_seconds P + poll_every P + D + 8)"
proof -
  obtain r s' where run: "poll_loop P script (initial_state P t0) = (r, s')"
    by (cases "poll_loop P script (initial_state P t0)")
  have "\<forall>e\<in>set (trace s'). is_poll_sleep e \<longrightarrow> begins e < deadline (initial_state P t0)"
    by (rule poll_loop_poll_sleeps[OF run]) (simp add: initial_state_def)
  then have sleeps: "\<forall>e\<in>set (trace s'). is_poll_sleep e \<longrightarrow> begins e < t0 + max_wait_seconds P"
    by (simp add: initial_state_def)
  have span: "clock s' \<le> t0 + max_wait_seconds P + poll_every P + D + 8"
    if "0 \<le> poll_every P" "0 \<le> max_wait_seconds P" "\<forall>q\<in>set script. fst q \<le> D" "r \<noteq> None"
  proof -
    have "clock (initial_state P t0) \<le> deadline (initial_state P t0) + poll_every P"
      using that(1,2) by (simp add: initial_state_def)
    from poll_loop_span[OF run that(1) that(3) this that(4)]
    show ?thesis by (simp add: initial_state_def)
  qed
  show ?thesis using run sleeps span by (simp add: poll_for_slot_def)
qed

theorem poll_sleep_before_deadline_and_span_witness:
  "fst (poll_for_slot short_wait_args 0 [(1 / 4, answering [slot_0800]), (3, failing)]) =
     Some (Returned None [slot_0800]) \<and>
   trace (snd (poll_for_slot short_wait_args 0 [(1 / 4, answering [slot_0800]), (3, failing)])) =
     [Query 0, PollSleep (1 / 4) 1, Query (5 / 4), BackoffSleep (17 / 4) 2] \<and>
   clock (snd (poll_for_slot short_wait_args 0 [(1 / 4, answering [slot_0800]), (3, failing)]))
     \<le> 0 + 1 + 1 + 3 + 8"
proof -
  have run: "poll_for_slot short_wait_args 0 [(1 / 4, answering [slot_0800]), (3, failing)] =
     (Some (Returned None [slot_0800]),
      \<lparr>clock = 25 / 4, deadline = 1, backoff = 2, last_avails = [slot_0800],
       trace = [Query 0, PollSleep (1 / 4) 1, Query (5 / 4), BackoffSleep (17 / 4) 2]\<rparr>)"
    by (simp add: loop_defs slot_defs parse_defs)
  have args: "poll_every short_wait_args = 1" "max_wait_seconds short_wait_args = 1"
    by (simp_all add: loop_defs)
  show ?thesis
    using poll_sleep_before_deadline_and_span[of short_wait_args 0
        "[(1 / 4, answering [slot_0800]), (3, failing)]" 3] run args
    by simp
qed

theorem deadline_overrun_counterexample:
  "fst (poll_for_slot short_wait_args 0 [(1 / 2, answering []), (5, failing)]) =
     Some (Returned None []) \<and>
   deadline (snd (poll_for_slot short_wait_args 0 [(1 / 2, answering []), (5, failing)])) = 1 \<and>
   trace (snd (poll_for_slot short_wait_args 0 [(1 / 2, answering []), (5, failing)])) =
     [Query 0, PollSleep (1 / 2) 1, Query (3 / 2), BackoffSleep (13 / 2) 2] \<and>
   clock (snd (poll_for_slot short_wait_args 0 [(1 / 2, answering []), (5, failing)])) = 17 / 2"
  by (simp add: loop_defs)

end
